theory Spec2Isabelle
  imports Main
begin

section \<open>Conway's Game of Life (main.py): the Cell and Grid state model\<close>

text \<open>
  The program keeps one \<open>Cell\<close> object per grid position in a two-dimensional numpy array
  of object references. \<open>Grid.update\<close> collects references to the cells whose state has to
  flip and then mutates these objects, so the embedding keeps an explicit object store:
  a reference is an address, the store maps every allocated address to the fields of the
  object living there, and the array \<open>cells\<close> holds addresses.

  Python's integers are unbounded and are modelled by \<open>int\<close>. The parameter \<open>cell_size\<close>
  is annotated \<open>float\<close> in the source but the program passes the integer \<open>10\<close>, and an
  index computed from a float is refused by numpy, so \<open>cell_size\<close> is an \<open>int\<close> here.
\<close>

subsection \<open>Errors\<close>

datatype py_error = IndexError | ZeroDivisionError

text \<open>
  A result is \<open>Inl e\<close> when the exception \<open>e\<close> leaves the function and \<open>Inr v\<close> when the
  function returns \<open>v\<close>. None of the Grid methods writes to a cell before its last
  possible raise, so on \<open>Inl e\<close> the state is the one the method was called with.
\<close>

definition and_then :: "py_error + 'a \<Rightarrow> ('a \<Rightarrow> py_error + 'b) \<Rightarrow> py_error + 'b" where
  "and_then r f = (case r of Inl e \<Rightarrow> Inl e | Inr v \<Rightarrow> f v)"

text \<open>A list comprehension whose element expression may raise: the first failure wins.\<close>

fun collect :: "('a \<Rightarrow> py_error + 'b) \<Rightarrow> 'a list \<Rightarrow> py_error + 'b list" where
  "collect f [] = Inr []"
| "collect f (x # xs) =
     and_then (f x) (\<lambda>y. and_then (collect f xs) (\<lambda>ys. Inr (y # ys)))"

text \<open>\<open>list(filter(p, xs))\<close> for a predicate that may raise.\<close>

fun py_filter :: "('a \<Rightarrow> py_error + bool) \<Rightarrow> 'a list \<Rightarrow> py_error + 'a list" where
  "py_filter p [] = Inr []"
| "py_filter p (x # xs) =
     and_then (p x) (\<lambda>b. and_then (py_filter p xs) (\<lambda>ys. Inr (if b then x # ys else ys)))"

text \<open>
  Indexing one axis of a numpy array with an integer: an index in \<open>[0, n)\<close> addresses
  from the front, an index in \<open>[-n, 0)\<close> counts from the end, anything else raises
  \<open>IndexError\<close>.
\<close>

definition np_index :: "'a list \<Rightarrow> int \<Rightarrow> py_error + 'a" where
  "np_index xs k =
     (let n = int (length xs) in
      if 0 \<le> k \<and> k < n then Inr (xs ! nat k)
      else if - n \<le> k \<and> k < 0 then Inr (xs ! nat (k + n))
      else Inl IndexError)"

text \<open>Python's \<open>//\<close> on integers: floor division, \<open>ZeroDivisionError\<close> for a zero divisor.\<close>

definition floordiv :: "int \<Rightarrow> int \<Rightarrow> py_error + int" where
  "floordiv a b = (if b = 0 then Inl ZeroDivisionError else Inr (a div b))"

subsection \<open>Cell\<close>

text \<open>
  \<open>pygame.Rect(left, top, width, height)\<close>. A rectangle covers the pixels from its left
  and top edge on, up to but not including \<open>left + width\<close> and \<open>top + height\<close>.
\<close>

record py_rect =
  rect_left :: int
  rect_top :: int
  rect_width :: int
  rect_height :: int

definition Rect :: "int \<Rightarrow> int \<Rightarrow> int \<Rightarrow> int \<Rightarrow> py_rect" where
  "Rect l t w h = \<lparr>rect_left = l, rect_top = t, rect_width = w, rect_height = h\<rparr>"

definition collidepoint :: "py_rect \<Rightarrow> int \<times> int \<Rightarrow> bool" where
  "collidepoint r p \<longleftrightarrow>
     rect_left r \<le> fst p \<and> fst p < rect_left r + rect_width r \<and>
     rect_top r \<le> snd p \<and> snd p < rect_top r + rect_height r"

text \<open>The fields \<open>i\<close> and \<open>j\<close> of the source are \<open>cell_i\<close> and \<open>cell_j\<close>.\<close>

record cell =
  cell_i :: int
  cell_j :: int
  rect :: py_rect
  alive :: bool

definition Cell_init :: "int \<Rightarrow> int \<Rightarrow> int \<Rightarrow> bool \<Rightarrow> cell" where
  "Cell_init i j sz alive0 =
     \<lparr>cell_i = i, cell_j = j, rect = Rect (i * sz) (j * sz) sz sz, alive = alive0\<rparr>"

definition Cell_toggle :: "cell \<Rightarrow> cell" where
  "Cell_toggle c = c\<lparr>alive := \<not> alive c\<rparr>"

subsection \<open>Grid\<close>

type_synonym addr = nat

text \<open>
  The Grid object together with the objects it refers to: \<open>cells\<close> is the array of
  references, row by row, and \<open>store\<close> holds the Cell objects, the object at address
  \<open>a\<close> being \<open>store ! a\<close>.
\<close>

record grid =
  n_rows :: int
  n_cols :: int
  cell_size :: int
  cells :: "addr list list"
  store :: "cell list"

text \<open>
  The constructor creates the cells row by row, \<open>Cell(i, j, cell_size)\<close> for \<open>j\<close> in
  \<open>range(n_cols)\<close> inside \<open>i\<close> in \<open>range(n_rows)\<close>; the objects get consecutive addresses in
  the order of their creation, so \<open>Cell(i, j)\<close> lives at \<open>i * n_cols + j\<close>.
\<close>

definition Grid_init :: "int \<Rightarrow> int \<Rightarrow> int \<Rightarrow> grid" where
  "Grid_init nr nc cs =
     \<lparr>n_rows = nr, n_cols = nc, cell_size = cs,
      cells = [[nat (i * nc + j). j \<leftarrow> [0..nc - 1]]. i \<leftarrow> [0..nr - 1]],
      store = concat [[Cell_init i j cs False. j \<leftarrow> [0..nc - 1]]. i \<leftarrow> [0..nr - 1]]\<rparr>"

text \<open>\<open>self.cells[i][j]\<close>\<close>

definition cell_at :: "grid \<Rightarrow> int \<Rightarrow> int \<Rightarrow> py_error + addr" where
  "cell_at s i j = and_then (np_index (cells s) i) (\<lambda>row. np_index row j)"

text \<open>The argument \<open>cell\<close> of the following methods is a reference to a Cell object.\<close>

definition neighbors :: "grid \<Rightarrow> addr \<Rightarrow> py_error + addr list" where
  "neighbors s c =
     (let ci = cell_i (store s ! c); cj = cell_j (store s ! c) in
      collect (\<lambda>(i, j). cell_at s i j)
        [(i, j). i \<leftarrow> [max (ci - 1) 0 .. min (ci + 2) (n_rows s) - 1],
                 j \<leftarrow> [max (cj - 1) 0 .. min (cj + 2) (n_cols s) - 1],
                 \<not> (i = ci \<and> j = cj)])"

text \<open>\<open>sum\<close> over booleans counts the true ones.\<close>

definition count_alive_neighbors :: "grid \<Rightarrow> addr \<Rightarrow> py_error + int" where
  "count_alive_neighbors s c =
     and_then (neighbors s c)
       (\<lambda>ns. Inr (sum_list [if alive (store s ! n) then 1 else 0. n \<leftarrow> ns]))"

text \<open>
  \<open>(cell.alive and not 2 <= count <= 3) or (not cell.alive and count == 3)\<close>, with the
  short-circuit evaluation of \<open>and\<close> and \<open>or\<close>.
\<close>

definition rule :: "grid \<Rightarrow> addr \<Rightarrow> py_error + bool" where
  "rule s c =
     and_then
       (if alive (store s ! c)
        then and_then (count_alive_neighbors s c) (\<lambda>n. Inr (\<not> (2 \<le> n \<and> n \<le> 3)))
        else Inr False)
       (\<lambda>dies.
          if dies then Inr True
          else if \<not> alive (store s ! c)
          then and_then (count_alive_neighbors s c) (\<lambda>n. Inr (n = 3))
          else Inr False)"

text \<open>\<open>self.cells.flatten()\<close>: the references in row-major order.\<close>

definition flatten :: "grid \<Rightarrow> addr list" where
  "flatten s = concat (cells s)"

text \<open>\<open>cell.toggle()\<close> on the object behind a reference.\<close>

definition toggle_cell :: "addr \<Rightarrow> grid \<Rightarrow> grid" where
  "toggle_cell a s = s\<lparr>store := (store s)[a := Cell_toggle (store s ! a)]\<rparr>"

text \<open>
  \<open>update\<close> first builds the whole list \<open>cells_to_toggle\<close> (the \<open>list(...)\<close> forces the
  filter), every call of \<open>rule\<close> reading the state \<open>s\<close> the method was entered with, and
  only then runs the loop that toggles.
\<close>

definition update :: "grid \<Rightarrow> py_error + grid" where
  "update s =
     and_then (py_filter (rule s) (flatten s))
       (\<lambda>cells_to_toggle. Inr (fold toggle_cell cells_to_toggle s))"

definition Grid_toggle :: "grid \<Rightarrow> int \<Rightarrow> int \<Rightarrow> py_error + grid" where
  "Grid_toggle s i j = and_then (cell_at s i j) (\<lambda>c. Inr (toggle_cell c s))"

subsection \<open>Game: the window size and the mouse handler\<close>

datatype event = QUIT | KEYDOWN int | OTHER

definition K_SPACE :: int where
  "K_SPACE = 32"

record game =
  game_cell_size :: int
  height :: int
  width :: int
  grid :: grid
  running :: bool
  paused :: bool

definition Game_init :: "int \<Rightarrow> int \<Rightarrow> int \<Rightarrow> game" where
  "Game_init nr nc cs =
     \<lparr>game_cell_size = cs, height = nr * cs, width = nc * cs,
      grid = Grid_init nr nc cs, running = True, paused = True\<rparr>"

text \<open>
  The body of \<open>if pygame.mouse.get_pressed()[0]\<close>, for the mouse position \<open>pos\<close>:
  \<open>self.grid.toggle(pos[0] // self.cell_size, pos[1] // self.cell_size)\<close>. The pixel
  coordinates are integers and so is \<open>cell_size\<close> here, the integer the program passes;
  a float \<open>cell_size\<close> is outside this model (its quotients are floats, which the array
  refuses as indices).
\<close>

definition mouse_toggle :: "game \<Rightarrow> int \<times> int \<Rightarrow> py_error + game" where
  "mouse_toggle g pos =
     and_then (floordiv (fst pos) (game_cell_size g)) (\<lambda>i.
     and_then (floordiv (snd pos) (game_cell_size g)) (\<lambda>j.
     and_then (Grid_toggle (grid g) i j) (\<lambda>s'. Inr (g\<lparr>grid := s'\<rparr>))))"

text \<open>
  \<open>handle_events\<close> runs over the pending events; with each event comes what
  \<open>pygame.mouse.get_pressed()[0]\<close> and \<open>pygame.mouse.get_pos()\<close> return in that iteration.
  \<open>QUIT\<close> leaves the loop at once. The result is the exception that escaped, if any, and
  the state reached.
\<close>

fun handle_events :: "(event \<times> bool \<times> int \<times> int) list \<Rightarrow> game \<Rightarrow> py_error option \<times> game" where
  "handle_events [] g = (None, g)"
| "handle_events ((ev, pressed, pos) # rest) g =
     (case ev of
        QUIT \<Rightarrow> (None, g\<lparr>running := False\<rparr>)
      | _ \<Rightarrow>
         (let g1 = (case ev of
                      KEYDOWN k \<Rightarrow> if k = K_SPACE then g\<lparr>paused := \<not> paused g\<rparr> else g
                    | _ \<Rightarrow> g)
          in if pressed
             then (case mouse_toggle g1 pos of
                     Inl e \<Rightarrow> (Some e, g1)
                   | Inr g2 \<Rightarrow> handle_events rest g2)
             else handle_events rest g1))"

subsection \<open>Well-formed grids\<close>

text \<open>
  What the constructor establishes and no method changes: the array has \<open>n_rows\<close> rows of
  \<open>n_cols\<close> references each, the references are pairwise different and allocated, and
  the object in row \<open>r\<close> and column \<open>c\<close> carries these indices and the rectangle derived
  from them.
\<close>

definition cell_ok :: "grid \<Rightarrow> nat \<Rightarrow> nat \<Rightarrow> bool" where
  "cell_ok s r c \<longleftrightarrow>
     cells s ! r ! c < length (store s) \<and>
     cell_i (store s ! (cells s ! r ! c)) = int r \<and>
     cell_j (store s ! (cells s ! r ! c)) = int c \<and>
     rect (store s ! (cells s ! r ! c)) =
       Rect (int r * cell_size s) (int c * cell_size s) (cell_size s) (cell_size s)"

definition wf_grid :: "grid \<Rightarrow> bool" where
  "wf_grid s \<longleftrightarrow>
     length (cells s) = nat (n_rows s) \<and>
     list_all (\<lambda>row. length row = nat (n_cols s)) (cells s) \<and>
     distinct (flatten s) \<and>
     list_all (\<lambda>r. list_all (\<lambda>c. cell_ok s r c) [0..<nat (n_cols s)]) [0..<nat (n_rows s)]"

text \<open>The alive flags of a grid, as a matrix of booleans.\<close>

definition alive_grid :: "grid \<Rightarrow> bool list list" where
  "alive_grid s = map (map (\<lambda>a. alive (store s ! a))) (cells s)"

text \<open>
  Everything of a grid but the alive flags: the fields of the Grid object, the array of
  references, and the indices and rectangle of every Cell object in the store (one
  entry per object, so the number of objects is part of it).
\<close>

definition fixed_part ::
  "grid \<Rightarrow> int \<times> int \<times> int \<times> addr list list \<times> (int \<times> int \<times> py_rect) list" where
  "fixed_part s =
     (n_rows s, n_cols s, cell_size s, cells s, map (\<lambda>c. (cell_i c, cell_j c, rect c)) (store s))"

text \<open>The positions of the alive cells, in row-major order.\<close>

definition alive_cells :: "grid \<Rightarrow> (int \<times> int) list" where
  "alive_cells s =
     [(i, j). i \<leftarrow> [0..int (length (cells s)) - 1], j \<leftarrow> [0..int (length (cells s ! nat i)) - 1],
              alive (store s ! (cells s ! nat i ! nat j))]"

text \<open>A matrix of booleans with the entry in row \<open>r\<close> and column \<open>c\<close> negated.\<close>

definition toggled_at :: "bool list list \<Rightarrow> nat \<Rightarrow> nat \<Rightarrow> bool list list" where
  "toggled_at b r c = b[r := (b ! r)[c := \<not> b ! r ! c]]"

text \<open>A sequence of calls of \<open>Grid.toggle\<close>.\<close>

fun toggle_all :: "(int \<times> int) list \<Rightarrow> grid \<Rightarrow> py_error + grid" where
  "toggle_all [] s = Inr s"
| "toggle_all ((i, j) # ps) s = and_then (Grid_toggle s i j) (toggle_all ps)"

text \<open>The blinker of the regression scenario: a 5 by 5 grid, alive at (2,1), (2,2), (2,3).\<close>

definition blinker :: "py_error + grid" where
  "blinker = toggle_all [(2, 1), (2, 2), (2, 3)] (Grid_init 5 5 10)"

text \<open>
  \<open>update\<close> with the cells visited in the order \<open>xs\<close> instead of the row-major order of
  \<open>flatten\<close>.
\<close>

definition update_in_order :: "addr list \<Rightarrow> grid \<Rightarrow> py_error + grid" where
  "update_in_order xs s =
     and_then (py_filter (rule s) xs)
       (\<lambda>cells_to_toggle. Inr (fold toggle_cell cells_to_toggle s))"

subsection \<open>The standard synchronous step, as the specification words it\<close>

text \<open>
  A board is a matrix of booleans. Two positions are adjacent when they differ and their
  indices differ by at most one in each dimension; positions outside the board do not
  exist (no wraparound). A live cell survives with two or three live neighbours, a dead
  cell is born with exactly three, every other cell is dead in the next generation. The
  step reads the board of generation N only and builds the board of generation N + 1.
\<close>

definition positions :: "bool list list \<Rightarrow> (int \<times> int) list" where
  "positions b =
     [(i, j). i \<leftarrow> [0..int (length b) - 1], j \<leftarrow> [0..int (length (b ! nat i)) - 1]]"

definition adjacent :: "int \<times> int \<Rightarrow> int \<times> int \<Rightarrow> bool" where
  "adjacent p q \<longleftrightarrow> p \<noteq> q \<and> \<bar>fst p - fst q\<bar> \<le> 1 \<and> \<bar>snd p - snd q\<bar> \<le> 1"

definition life_neighbours :: "bool list list \<Rightarrow> int \<Rightarrow> int \<Rightarrow> int" where
  "life_neighbours b i j =
     int (length [q \<leftarrow> positions b. adjacent (i, j) q \<and> b ! nat (fst q) ! nat (snd q)])"

definition life_next :: "bool list list \<Rightarrow> int \<Rightarrow> int \<Rightarrow> bool" where
  "life_next b i j =
     (if b ! nat i ! nat j
      then life_neighbours b i j = 2 \<or> life_neighbours b i j = 3
      else life_neighbours b i j = 3)"

definition life_step :: "bool list list \<Rightarrow> bool list list" where
  "life_step b =
     [[life_next b i j. j \<leftarrow> [0..int (length (b ! nat i)) - 1]]. i \<leftarrow> [0..int (length b) - 1]]"

text \<open>
  A 3 by 4 grid in which the cells (0,0), (0,1) and (1,0) are alive, the objects at the
  addresses 0, 1 and 4.
\<close>

definition corner_grid :: grid where
  "corner_grid = fold toggle_cell [0, 1, 4] (Grid_init 3 4 10)"

text \<open>No cell of the grid is alive.\<close>

definition all_dead :: "grid \<Rightarrow> bool" where
  "all_dead s \<longleftrightarrow> list_all (\<lambda>a. \<not> alive (store s ! a)) (flatten s)"

subsection \<open>Auxiliary notions for the proofs\<close>

text \<open>The index pairs the comprehension of \<open>neighbors\<close> runs over, for a cell at \<open>(i, j)\<close>.\<close>

definition around :: "int \<Rightarrow> int \<Rightarrow> int \<Rightarrow> int \<Rightarrow> (int \<times> int) list" where
  "around nr nc i j =
     filter (\<lambda>(i', j'). \<not> (i' = i \<and> j' = j))
       (List.product [max (i - 1) 0 .. min (i + 2) nr - 1] [max (j - 1) 0 .. min (j + 2) nc - 1])"

text \<open>The flip decision of \<open>rule\<close> for the cell behind a reference, as a plain predicate.\<close>

definition flips :: "grid \<Rightarrow> addr \<Rightarrow> bool" where
  "flips s a \<longleftrightarrow>
     alive (store s ! a) \<noteq>
       life_next (alive_grid s) (cell_i (store s ! a)) (cell_j (store s ! a))"

section \<open>Properties of the embedding\<close>

subsection \<open>Results and list comprehensions\<close>

lemma and_then_Inr [simp]: "and_then (Inr v) f = f v"
  by (simp add: and_then_def)

lemma and_then_Inl [simp]: "and_then (Inl e) f = Inl e"
  by (simp add: and_then_def)

lemma collect_map:
  "(\<And>x. x \<in> set xs \<Longrightarrow> f x = Inr (g x)) \<Longrightarrow> collect f xs = Inr (map g xs)"
  by (induction xs) simp_all

lemma py_filter_filter:
  "(\<And>x. x \<in> set xs \<Longrightarrow> p x = Inr (q x)) \<Longrightarrow> py_filter p xs = Inr (filter q xs)"
  by (induction xs) simp_all

lemma np_index_in_range:
  "0 \<le> k \<Longrightarrow> k < int (length xs) \<Longrightarrow> np_index xs k = Inr (xs ! nat k)"
  by (simp add: np_index_def)

lemma comprehension_product:
  "concat (map (\<lambda>x. concat (map (\<lambda>y. if P x y then [(x, y)] else []) ys)) xs) =
     filter (\<lambda>(x, y). P x y) (List.product xs ys)"
proof (induction xs)
  case Nil
  show ?case by simp
next
  case (Cons x xs)
  have "concat (map (\<lambda>y. if P x y then [(x, y)] else []) ys) =
          filter (\<lambda>(x, y). P x y) (map (Pair x) ys)"
    by (induction ys) simp_all
  with Cons show ?case by simp
qed

lemma wf_grid_row_length:
  assumes "wf_grid s" "r < nat (n_rows s)"
  shows "length (cells s ! r) = nat (n_cols s)"
proof -
  from assms have "cells s ! r \<in> set (cells s)"
    by (simp add: wf_grid_def)
  with assms show ?thesis
    by (simp add: wf_grid_def list_all_iff)
qed

lemma wf_grid_cell_ok:
  assumes "wf_grid s" "r < nat (n_rows s)" "c < nat (n_cols s)"
  shows "cell_ok s r c"
  using assms by (simp add: wf_grid_def list_all_iff)

lemma wf_grid_in_flatten:
  assumes "wf_grid s" "r < nat (n_rows s)" "c < nat (n_cols s)"
  shows "cells s ! r ! c \<in> set (flatten s)"
proof -
  from assms have "cells s ! r \<in> set (cells s)" "cells s ! r ! c \<in> set (cells s ! r)"
    by (simp_all add: wf_grid_row_length) (simp add: wf_grid_def)
  then show ?thesis
    unfolding flatten_def by auto
qed

lemma wf_grid_flattenE:
  assumes "wf_grid s" "a \<in> set (flatten s)"
  obtains r c where "r < nat (n_rows s)" "c < nat (n_cols s)" "a = cells s ! r ! c"
proof -
  from assms(2) obtain row where row: "row \<in> set (cells s)" "a \<in> set row"
    unfolding flatten_def by auto
  then obtain r where r: "r < length (cells s)" "row = cells s ! r"
    by (auto simp: in_set_conv_nth)
  from row obtain c where c: "c < length row" "a = row ! c"
    by (auto simp: in_set_conv_nth)
  from assms(1) row have "length row = nat (n_cols s)"
    by (simp add: wf_grid_def list_all_iff)
  with r c assms(1) that show thesis
    by (simp add: wf_grid_def)
qed

lemma cell_at_in_range:
  assumes "wf_grid s" "0 \<le> i" "i < n_rows s" "0 \<le> j" "j < n_cols s"
  shows "cell_at s i j = Inr (cells s ! nat i ! nat j)"
proof -
  from assms have len: "length (cells s) = nat (n_rows s)"
    by (simp add: wf_grid_def)
  from assms have "length (cells s ! nat i) = nat (n_cols s)"
    by (intro wf_grid_row_length) simp_all
  with assms len show ?thesis
    by (simp add: cell_at_def np_index_in_range)
qed


lemma neighbors_around:
  "neighbors s c =
     collect (\<lambda>(i, j). cell_at s i j)
       (around (n_rows s) (n_cols s) (cell_i (store s ! c)) (cell_j (store s ! c)))"
  by (simp add: neighbors_def around_def Let_def comprehension_product)

lemma set_around:
  "set (around nr nc i j) =
     {(i', j'). max (i - 1) 0 \<le> i' \<and> i' < min (i + 2) nr \<and>
                max (j - 1) 0 \<le> j' \<and> j' < min (j + 2) nc \<and> (i', j') \<noteq> (i, j)}"
  by (auto simp: around_def)

lemma set_around_adjacent:
  assumes "0 \<le> i" "i < nr" "0 \<le> j" "j < nc"
  shows "set (around nr nc i j) =
     {q. adjacent (i, j) q \<and> 0 \<le> fst q \<and> fst q < nr \<and> 0 \<le> snd q \<and> snd q < nc}"
  using assms by (auto simp: set_around adjacent_def)

lemma distinct_around: "distinct (around nr nc i j)"
  by (simp add: around_def distinct_product)

lemma neighbors_wf:
  assumes "wf_grid s" "r < nat (n_rows s)" "c < nat (n_cols s)"
  shows "neighbors s (cells s ! r ! c) =
     Inr (map (\<lambda>(i, j). cells s ! nat i ! nat j) (around (n_rows s) (n_cols s) (int r) (int c)))"
proof -
  from assms have ok: "cell_ok s r c"
    by (rule wf_grid_cell_ok)
  have "collect (\<lambda>(i, j). cell_at s i j) (around (n_rows s) (n_cols s) (int r) (int c)) =
        Inr (map (\<lambda>(i, j). cells s ! nat i ! nat j) (around (n_rows s) (n_cols s) (int r) (int c)))"
  proof (rule collect_map)
    fix q assume "q \<in> set (around (n_rows s) (n_cols s) (int r) (int c))"
    then have "0 \<le> fst q" "fst q < n_rows s" "0 \<le> snd q" "snd q < n_cols s"
      by (auto simp: set_around)
    with assms(1) have "cell_at s (fst q) (snd q) = Inr (cells s ! nat (fst q) ! nat (snd q))"
      by (rule cell_at_in_range)
    then show "(case q of (i, j) \<Rightarrow> cell_at s i j) = Inr (case q of (i, j) \<Rightarrow> cells s ! nat i ! nat j)"
      by (simp add: case_prod_beta)
  qed
  with ok show ?thesis
    by (simp add: neighbors_around cell_ok_def)
qed

lemma sum_list_indicator:
  "sum_list (map (\<lambda>x. if P x then 1 else 0) xs) = int (length (filter P xs))"
  by (induction xs) simp_all

lemma count_alive_neighbors_wf:
  assumes "wf_grid s" "r < nat (n_rows s)" "c < nat (n_cols s)"
  shows "count_alive_neighbors s (cells s ! r ! c) =
     Inr (int (length (filter (\<lambda>q. alive (store s ! (cells s ! nat (fst q) ! nat (snd q))))
                 (around (n_rows s) (n_cols s) (int r) (int c)))))"
proof -
  have "sum_list (map (\<lambda>n. if alive (store s ! n) then 1 else 0)
          (map (\<lambda>(i, j). cells s ! nat i ! nat j) (around (n_rows s) (n_cols s) (int r) (int c)))) =
        int (length (filter (\<lambda>q. alive (store s ! (cells s ! nat (fst q) ! nat (snd q))))
                 (around (n_rows s) (n_cols s) (int r) (int c))))"
    by (simp add: comp_def case_prod_beta sum_list_indicator)
  with neighbors_wf [OF assms] show ?thesis
    by (simp add: count_alive_neighbors_def)
qed

lemma length_alive_grid: "length (alive_grid s) = length (cells s)"
  by (simp add: alive_grid_def)

lemma alive_grid_nth:
  "r < length (cells s) \<Longrightarrow> c < length (cells s ! r) \<Longrightarrow>
     alive_grid s ! r ! c = alive (store s ! (cells s ! r ! c))"
  by (simp add: alive_grid_def)

lemma positions_wf:
  assumes "wf_grid s"
  shows "positions (alive_grid s) = List.product [0..n_rows s - 1] [0..n_cols s - 1]"
proof -
  let ?b = "alive_grid s"
  from assms have len: "length (cells s) = nat (n_rows s)"
    by (simp add: wf_grid_def)
  have rows: "map (\<lambda>i. map (Pair i) [0..int (length (?b ! nat i)) - 1]) [0..n_rows s - 1] =
        map (\<lambda>i. map (Pair i) [0..n_cols s - 1]) [0..n_rows s - 1]"
  proof (rule map_cong [OF refl])
    fix i assume "i \<in> set [0..n_rows s - 1]"
    then have i: "nat i < nat (n_rows s)" by auto
    with assms have "length (cells s ! nat i) = nat (n_cols s)"
      by (rule wf_grid_row_length)
    with i len have "length (?b ! nat i) = nat (n_cols s)"
      by (simp add: alive_grid_def)
    moreover have "[0..int (nat (n_cols s)) - 1] = [0..n_cols s - 1]"
      by (cases "0 \<le> n_cols s") simp_all
    ultimately show "map (Pair i) [0..int (length (?b ! nat i)) - 1] = map (Pair i) [0..n_cols s - 1]"
      by (simp only:)
  qed
  have eq: "[0..int (nat (n_rows s)) - 1] = [0..n_rows s - 1]"
    by (cases "0 \<le> n_rows s") simp_all
  have "positions ?b =
        concat (map (\<lambda>i. map (Pair i) [0..int (length (?b ! nat i)) - 1]) [0..int (length ?b) - 1])"
    by (simp add: positions_def)
  also have "\<dots> = concat (map (\<lambda>i. map (Pair i) [0..int (length (?b ! nat i)) - 1]) [0..n_rows s - 1])"
    by (simp only: length_alive_grid len eq)
  also have "\<dots> = concat (map (\<lambda>i. map (Pair i) [0..n_cols s - 1]) [0..n_rows s - 1])"
    by (simp only: rows)
  also have "\<dots> = List.product [0..n_rows s - 1] [0..n_cols s - 1]"
    by (simp add: product_concat_map)
  finally show ?thesis .
qed

lemma count_alive_neighbors_life:
  assumes "wf_grid s" "r < nat (n_rows s)" "c < nat (n_cols s)"
  shows "count_alive_neighbors s (cells s ! r ! c) =
     Inr (life_neighbours (alive_grid s) (int r) (int c))"
proof -
  let ?b = "alive_grid s"
  let ?A = "around (n_rows s) (n_cols s) (int r) (int c)"
  let ?P = "\<lambda>q. alive (store s ! (cells s ! nat (fst q) ! nat (snd q)))"
  let ?Q = "\<lambda>q. adjacent (int r, int c) q \<and> ?b ! nat (fst q) ! nat (snd q)"
  from assms have len: "length (cells s) = nat (n_rows s)"
    by (simp add: wf_grid_def)
  have bnd: "0 \<le> int r" "int r < n_rows s" "0 \<le> int c" "int c < n_cols s"
    using assms by simp_all
  have inb: "?b ! nat i ! nat j = alive (store s ! (cells s ! nat i ! nat j))"
    if "0 \<le> i" "i < n_rows s" "0 \<le> j" "j < n_cols s" for i j
  proof -
    from that have "nat i < nat (n_rows s)" by simp
    with assms(1) have "length (cells s ! nat i) = nat (n_cols s)"
      by (rule wf_grid_row_length)
    with that len show ?thesis
      by (simp add: alive_grid_nth)
  qed
  have "{q. ?P q} \<inter> set ?A = {q. ?Q q} \<inter> set (positions ?b)"
    unfolding positions_wf [OF assms(1)] set_around_adjacent [OF bnd]
    using inb by (auto simp: case_prod_beta)
  then have "length (filter ?P ?A) = length (filter ?Q (positions ?b))"
    by (simp add: distinct_length_filter distinct_around positions_wf [OF assms(1)] distinct_product)
  with count_alive_neighbors_wf [OF assms] show ?thesis
    by (simp add: life_neighbours_def)
qed

lemma rule_eq:
  "rule s c =
     and_then (count_alive_neighbors s c)
       (\<lambda>n. Inr ((alive (store s ! c) \<and> \<not> (2 \<le> n \<and> n \<le> 3)) \<or> (\<not> alive (store s ! c) \<and> n = 3)))"
  by (cases "count_alive_neighbors s c") (auto simp: rule_def)

lemma rule_flips:
  assumes "wf_grid s" "a \<in> set (flatten s)"
  shows "rule s a = Inr (flips s a)"
proof -
  from assms obtain r c where rc: "r < nat (n_rows s)" "c < nat (n_cols s)" "a = cells s ! r ! c"
    by (rule wf_grid_flattenE)
  from assms(1) rc(1,2) have ok: "cell_ok s r c"
    by (rule wf_grid_cell_ok)
  from assms(1) rc(1,2) have len: "r < length (cells s)" "c < length (cells s ! r)"
    by (simp_all add: wf_grid_row_length) (simp add: wf_grid_def)
  have cnt: "count_alive_neighbors s a = Inr (life_neighbours (alive_grid s) (int r) (int c))"
    unfolding rc(3) using assms(1) rc(1,2) by (rule count_alive_neighbors_life)
  have "alive_grid s ! r ! c = alive (store s ! a)"
    using len by (simp add: alive_grid_nth rc(3))
  with ok cnt show ?thesis
    by (auto simp: rule_eq flips_def life_next_def cell_ok_def rc(3))
qed

lemma store_toggle_cell:
  "store (toggle_cell a s) = (store s)[a := Cell_toggle (store s ! a)]"
  by (simp add: toggle_cell_def)

lemma fold_toggle_cell_fields:
  "n_rows (fold toggle_cell ts s) = n_rows s"
  "n_cols (fold toggle_cell ts s) = n_cols s"
  "cell_size (fold toggle_cell ts s) = cell_size s"
  "cells (fold toggle_cell ts s) = cells s"
  "length (store (fold toggle_cell ts s)) = length (store s)"
  by (induction ts arbitrary: s) (simp_all add: toggle_cell_def)

lemma fold_toggle_cell_store:
  assumes "distinct ts" "a < length (store s)"
  shows "store (fold toggle_cell ts s) ! a =
     (if a \<in> set ts then Cell_toggle (store s ! a) else store s ! a)"
  using assms
proof (induction ts arbitrary: s)
  case Nil
  show ?case by simp
next
  case (Cons t ts)
  from Cons.prems have "store (fold toggle_cell ts (toggle_cell t s)) ! a =
      (if a \<in> set ts then Cell_toggle (store (toggle_cell t s) ! a) else store (toggle_cell t s) ! a)"
    by (intro Cons.IH) (simp_all add: toggle_cell_def)
  with Cons.prems show ?case
    by (cases "a = t") (auto simp: store_toggle_cell)
qed


lemma update_in_order_result:
  assumes "wf_grid s" "set xs \<subseteq> set (flatten s)"
  shows "update_in_order xs s = Inr (fold toggle_cell (filter (flips s) xs) s)"
proof -
  have "py_filter (rule s) xs = Inr (filter (flips s) xs)"
  proof (rule py_filter_filter)
    fix a assume "a \<in> set xs"
    with assms(2) have "a \<in> set (flatten s)" by auto
    with assms(1) show "rule s a = Inr (flips s a)" by (rule rule_flips)
  qed
  then show ?thesis
    by (simp add: update_in_order_def)
qed

lemma update_in_order_flatten: "update s = update_in_order (flatten s) s"
  by (simp add: update_def update_in_order_def)

lemma length_life_step: "length (life_step b) = length b"
  by (simp add: life_step_def)

lemma length_life_step_row: "r < length b \<Longrightarrow> length (life_step b ! r) = length (b ! r)"
  by (simp add: life_step_def)

lemma life_step_nth:
  "r < length b \<Longrightarrow> c < length (b ! r) \<Longrightarrow> life_step b ! r ! c = life_next b (int r) (int c)"
  by (simp add: life_step_def)

lemma alive_after_update_in_order:
  assumes wf: "wf_grid s" and xs: "distinct xs" "set xs = set (flatten s)"
    and rc: "r < nat (n_rows s)" "c < nat (n_cols s)"
  shows "alive (store (fold toggle_cell (filter (flips s) xs) s) ! (cells s ! r ! c)) =
     life_next (alive_grid s) (int r) (int c)"
proof -
  let ?a = "cells s ! r ! c"
  from wf rc have ok: "cell_ok s r c" by (rule wf_grid_cell_ok)
  from wf rc have "?a \<in> set (flatten s)" by (rule wf_grid_in_flatten)
  with xs have mem: "?a \<in> set xs" by simp
  from ok have "?a < length (store s)" by (simp add: cell_ok_def)
  with xs(1) have "store (fold toggle_cell (filter (flips s) xs) s) ! ?a =
     (if ?a \<in> set (filter (flips s) xs) then Cell_toggle (store s ! ?a) else store s ! ?a)"
    by (intro fold_toggle_cell_store) simp_all
  with mem ok show ?thesis
    by (auto simp: flips_def Cell_toggle_def cell_ok_def)
qed


lemma alive_grid_fold_toggle:
  assumes wf: "wf_grid s" and xs: "distinct xs" "set xs = set (flatten s)"
  shows "alive_grid (fold toggle_cell (filter (flips s) xs) s) = life_step (alive_grid s)"
proof (rule nth_equalityI)
  let ?s' = "fold toggle_cell (filter (flips s) xs) s"
  from wf have len: "length (cells s) = nat (n_rows s)"
    by (simp add: wf_grid_def)
  show "length (alive_grid ?s') = length (life_step (alive_grid s))"
    by (simp add: length_life_step length_alive_grid fold_toggle_cell_fields)
  fix r assume "r < length (alive_grid ?s')"
  then have r: "r < nat (n_rows s)"
    by (simp add: length_alive_grid fold_toggle_cell_fields len)
  with wf have row: "length (cells s ! r) = nat (n_cols s)"
    by (rule wf_grid_row_length)
  show "alive_grid ?s' ! r = life_step (alive_grid s) ! r"
  proof (rule nth_equalityI)
    from r len row show "length (alive_grid ?s' ! r) = length (life_step (alive_grid s) ! r)"
      by (simp add: length_life_step_row length_alive_grid)
         (simp add: alive_grid_def fold_toggle_cell_fields)
    fix c assume "c < length (alive_grid ?s' ! r)"
    with r len row have c: "c < nat (n_cols s)"
      by (simp add: alive_grid_def fold_toggle_cell_fields)
    from r c len row have "alive_grid ?s' ! r ! c = alive (store ?s' ! (cells s ! r ! c))"
      by (simp add: alive_grid_def fold_toggle_cell_fields)
    also from wf xs r c have "\<dots> = life_next (alive_grid s) (int r) (int c)"
      by (rule alive_after_update_in_order)
    also have "\<dots> = life_step (alive_grid s) ! r ! c"
    proof -
      from r len have "r < length (alive_grid s)"
        by (simp add: length_alive_grid)
      moreover from r c len row have "c < length (alive_grid s ! r)"
        by (simp add: alive_grid_def)
      ultimately show ?thesis
        by (simp add: life_step_nth)
    qed
    finally show "alive_grid ?s' ! r ! c = life_step (alive_grid s) ! r ! c" .
  qed
qed

lemma map_update_same: "(map f xs)[a := f (xs ! a)] = map f xs"
  by (simp add: map_update [symmetric])

lemma fixed_part_toggle_cell: "fixed_part (toggle_cell a s) = fixed_part s"
proof -
  let ?f = "\<lambda>c. (cell_i c, cell_j c, rect c)"
  have "(map ?f (store s))[a := ?f (store s ! a)] = map ?f (store s)"
    by (rule map_update_same)
  then show ?thesis
    by (simp add: fixed_part_def toggle_cell_def Cell_toggle_def map_update)
qed

lemma fixed_part_fold_toggle_cell: "fixed_part (fold toggle_cell ts s) = fixed_part s"
  by (induction ts arbitrary: s) (simp_all add: fixed_part_toggle_cell)

subsection \<open>The constructor builds a well-formed grid\<close>

lemma nth_concat_uniform:
  assumes "\<forall>row \<in> set xss. length row = n" "r < length xss" "c < n"
  shows "r * n + c < length (concat xss) \<and> concat xss ! (r * n + c) = xss ! r ! c"
  using assms
proof (induction xss arbitrary: r)
  case Nil
  then show ?case by simp
next
  case (Cons row rest)
  show ?case
  proof (cases r)
    case 0
    with Cons.prems show ?thesis by (simp add: nth_append)
  next
    case (Suc r')
    with Cons.prems have "r' * n + c < length (concat rest) \<and> concat rest ! (r' * n + c) = rest ! r' ! c"
      by (intro Cons.IH) simp_all
    moreover have "r * n + c = length row + (r' * n + c)"
      using Suc Cons.prems by simp
    ultimately show ?thesis
      using Suc by (simp add: nth_append)
  qed
qed

lemma Grid_init_cells_nth:
  assumes "r < nat nr" "c < nat nc"
  shows "cells (Grid_init nr nc cs) ! r ! c = r * nat nc + c"
proof -
  from assms have "cells (Grid_init nr nc cs) ! r ! c = nat (int r * nc + int c)"
    by (simp add: Grid_init_def)
  also from assms have "\<dots> = r * nat nc + c"
    by (simp add: nat_add_distrib nat_mult_distrib)
  finally show ?thesis .
qed

lemma Grid_init_store_nth:
  assumes "r < nat nr" "c < nat nc"
  shows "r * nat nc + c < length (store (Grid_init nr nc cs)) \<and>
     store (Grid_init nr nc cs) ! (r * nat nc + c) = Cell_init (int r) (int c) cs False"
proof -
  let ?xss = "map (\<lambda>i. map (\<lambda>j. Cell_init i j cs False) [0..nc - 1]) [0..nr - 1]"
  have "\<forall>row \<in> set ?xss. length row = nat nc" by auto
  moreover from assms have "r < length ?xss" by simp
  ultimately have "r * nat nc + c < length (concat ?xss) \<and>
      concat ?xss ! (r * nat nc + c) = ?xss ! r ! c"
    using assms(2) by (rule nth_concat_uniform)
  moreover from assms have "?xss ! r ! c = Cell_init (int r) (int c) cs False"
    by simp
  ultimately show ?thesis
    by (simp add: Grid_init_def)
qed

lemma Grid_init_flatten:
  "flatten (Grid_init nr nc cs) =
     map (\<lambda>(i, j). nat (i * nc + j)) (List.product [0..nr - 1] [0..nc - 1])"
  by (simp add: flatten_def Grid_init_def product_concat_map map_concat comp_def)

lemma Grid_init_distinct: "distinct (flatten (Grid_init nr nc cs))"
proof -
  have "inj_on (\<lambda>(i, j). nat (i * nc + j)) (set (List.product [0..nr - 1] [0..nc - 1]))"
  proof (rule inj_onI)
    fix p q
    assume p: "p \<in> set (List.product [0..nr - 1] [0..nc - 1])"
       and q: "q \<in> set (List.product [0..nr - 1] [0..nc - 1])"
       and eq: "(case p of (i, j) \<Rightarrow> nat (i * nc + j)) = (case q of (i, j) \<Rightarrow> nat (i * nc + j))"
    from p have bp: "0 \<le> fst p" "0 \<le> snd p" "snd p < nc" by auto
    from q have bq: "0 \<le> fst q" "0 \<le> snd q" "snd q < nc" by auto
    from bp have "0 \<le> fst p * nc + snd p" by simp
    moreover from bq have "0 \<le> fst q * nc + snd q" by simp
    ultimately have e: "fst p * nc + snd p = fst q * nc + snd q"
      using eq by (simp add: case_prod_beta)
    from bp have "(fst p * nc + snd p) div nc = fst p" "(fst p * nc + snd p) mod nc = snd p"
      by simp_all
    moreover from bq have "(fst q * nc + snd q) div nc = fst q" "(fst q * nc + snd q) mod nc = snd q"
      by simp_all
    ultimately have "fst p = fst q" "snd p = snd q"
      using e by simp_all
    then show "p = q" by (simp add: prod_eq_iff)
  qed
  then show ?thesis
    by (simp add: Grid_init_flatten distinct_map distinct_product)
qed

lemma Grid_init_wf: "wf_grid (Grid_init nr nc cs)"
proof -
  let ?s = "Grid_init nr nc cs"
  have f: "n_rows ?s = nr" "n_cols ?s = nc" "cell_size ?s = cs"
    by (simp_all add: Grid_init_def)
  have "length (cells ?s) = nat nr"
    by (simp add: Grid_init_def)
  moreover have "list_all (\<lambda>row. length row = nat nc) (cells ?s)"
    by (auto simp: Grid_init_def list_all_iff)
  moreover have "cell_ok ?s r c" if "r < nat nr" "c < nat nc" for r c
    using that Grid_init_store_nth [OF that, of cs]
    by (simp add: cell_ok_def Grid_init_cells_nth f Cell_init_def)
  ultimately show ?thesis
    by (simp add: wf_grid_def f Grid_init_distinct list_all_iff)
qed

subsection \<open>One generation\<close>

lemma fold_toggle_cell_record:
  "fold toggle_cell ts s = s\<lparr>store := store (fold toggle_cell ts s)\<rparr>"
  by (rule grid.equality) (simp_all add: fold_toggle_cell_fields)

lemma fold_toggle_cell_wf:
  assumes "wf_grid s"
  shows "wf_grid (fold toggle_cell ts s)"
proof -
  let ?s' = "fold toggle_cell ts s"
  have fp: "fixed_part ?s' = fixed_part s"
    by (rule fixed_part_fold_toggle_cell)
  then have f: "n_rows ?s' = n_rows s" "n_cols ?s' = n_cols s" "cell_size ?s' = cell_size s"
      "cells ?s' = cells s"
    and m: "map (\<lambda>c. (cell_i c, cell_j c, rect c)) (store ?s') =
            map (\<lambda>c. (cell_i c, cell_j c, rect c)) (store s)"
    by (simp_all add: fixed_part_def)
  from m have len: "length (store ?s') = length (store s)"
    by (rule map_eq_imp_length_eq)
  have "cell_ok ?s' r c" if "cell_ok s r c" for r c
  proof -
    let ?a = "cells s ! r ! c"
    from that have a: "?a < length (store s)" by (simp add: cell_ok_def)
    with len have "map (\<lambda>c. (cell_i c, cell_j c, rect c)) (store ?s') ! ?a =
                   (\<lambda>c. (cell_i c, cell_j c, rect c)) (store ?s' ! ?a)"
      by (intro nth_map) simp
    moreover from a have "map (\<lambda>c. (cell_i c, cell_j c, rect c)) (store s) ! ?a =
                   (\<lambda>c. (cell_i c, cell_j c, rect c)) (store s ! ?a)"
      by (intro nth_map)
    ultimately have "cell_i (store ?s' ! ?a) = cell_i (store s ! ?a)"
        "cell_j (store ?s' ! ?a) = cell_j (store s ! ?a)" "rect (store ?s' ! ?a) = rect (store s ! ?a)"
      using m by simp_all
    with that len show ?thesis
      by (simp add: cell_ok_def f)
  qed
  with assms show ?thesis
    by (simp add: wf_grid_def f flatten_def list_all_iff)
qed

lemma update_refines_life_step:
  assumes "wf_grid s"
  shows "py_filter (rule s) (flatten s) = Inr (filter (flips s) (flatten s))"
    and "update s = Inr (fold toggle_cell (filter (flips s) (flatten s)) s)"
    and "alive_grid (fold toggle_cell (filter (flips s) (flatten s)) s) = life_step (alive_grid s)"
proof -
  show "py_filter (rule s) (flatten s) = Inr (filter (flips s) (flatten s))"
    using assms by (intro py_filter_filter rule_flips)
  from assms show "update s = Inr (fold toggle_cell (filter (flips s) (flatten s)) s)"
    by (simp add: update_in_order_flatten update_in_order_result)
  from assms have "distinct (flatten s)" by (simp add: wf_grid_def)
  with assms show "alive_grid (fold toggle_cell (filter (flips s) (flatten s)) s) = life_step (alive_grid s)"
    by (intro alive_grid_fold_toggle) simp_all
qed

lemma all_dead_flips:
  assumes "wf_grid s" "all_dead s" "a \<in> set (flatten s)"
  shows "\<not> flips s a"
proof -
  let ?b = "alive_grid s"
  from assms(1) have len: "length (cells s) = nat (n_rows s)"
    by (simp add: wf_grid_def)
  have dead: "\<not> ?b ! nat (fst q) ! nat (snd q)" if "q \<in> set (positions ?b)" for q
  proof -
    from that assms(1) have q: "nat (fst q) < nat (n_rows s)" "nat (snd q) < nat (n_cols s)"
      by (auto simp: positions_wf)
    with assms(1) have "cells s ! nat (fst q) ! nat (snd q) \<in> set (flatten s)"
      by (intro wf_grid_in_flatten)
    with assms(2) have "\<not> alive (store s ! (cells s ! nat (fst q) ! nat (snd q)))"
      by (simp add: all_dead_def list_all_iff)
    moreover from assms(1) q have "length (cells s ! nat (fst q)) = nat (n_cols s)"
      by (intro wf_grid_row_length)
    ultimately show ?thesis
      using q len by (simp add: alive_grid_nth)
  qed
  then have "filter (\<lambda>q. adjacent (i, j) q \<and> ?b ! nat (fst q) ! nat (snd q)) (positions ?b) = []" for i j
    by (simp add: filter_empty_conv)
  then have "life_neighbours ?b i j = 0" for i j
    by (simp add: life_neighbours_def)
  moreover from assms(2,3) have "\<not> alive (store s ! a)"
    by (simp add: all_dead_def list_all_iff)
  ultimately show ?thesis
    by (simp add: flips_def life_next_def)
qed

lemma Grid_init_all_dead: "all_dead (Grid_init nr nc cs)"
proof -
  let ?s = "Grid_init nr nc cs"
  have "\<not> alive (store ?s ! a)" if "a \<in> set (flatten ?s)" for a
  proof -
    from Grid_init_wf that obtain r c
      where rc: "r < nat (n_rows ?s)" "c < nat (n_cols ?s)" "a = cells ?s ! r ! c"
      by (rule wf_grid_flattenE)
    then have b: "r < nat nr" "c < nat nc"
      by (simp_all add: Grid_init_def)
    from Grid_init_store_nth [OF b, of cs] show ?thesis
      by (simp add: rc(3) Grid_init_cells_nth [OF b] Cell_init_def)
  qed
  then show ?thesis
    by (simp add: all_dead_def list_all_iff)
qed

lemma update_Inr_fold:
  assumes "update s = Inr s'"
  shows "\<exists>ts. s' = fold toggle_cell ts s"
proof (cases "py_filter (rule s) (flatten s)")
  case (Inl e)
  with assms show ?thesis by (simp add: update_def)
next
  case (Inr ts)
  with assms have "s' = fold toggle_cell ts s" by (simp add: update_def)
  then show ?thesis ..
qed

lemma Grid_toggle_Inr:
  assumes "Grid_toggle s i j = Inr s'"
  shows "\<exists>a. cell_at s i j = Inr a \<and> s' = toggle_cell a s"
  using assms by (cases "cell_at s i j") (simp_all add: Grid_toggle_def)

lemma fold_toggle_cell_order:
  assumes "distinct ts" "distinct us" "set ts = set us"
  shows "fold toggle_cell ts s = fold toggle_cell us s"
proof -
  have "store (fold toggle_cell ts s) = store (fold toggle_cell us s)"
  proof (rule nth_equalityI)
    show "length (store (fold toggle_cell ts s)) = length (store (fold toggle_cell us s))"
      by (simp add: fold_toggle_cell_fields)
    fix a assume "a < length (store (fold toggle_cell ts s))"
    then have "a < length (store s)" by (simp add: fold_toggle_cell_fields)
    with assms show "store (fold toggle_cell ts s) ! a = store (fold toggle_cell us s) ! a"
      by (simp add: fold_toggle_cell_store)
  qed
  then show ?thesis
    by (intro grid.equality) (simp_all add: fold_toggle_cell_fields)
qed

subsection \<open>Neighbourhoods\<close>

lemma wf_grid_cells_inj:
  assumes "wf_grid s" "r < nat (n_rows s)" "c < nat (n_cols s)"
    "r' < nat (n_rows s)" "c' < nat (n_cols s)" "cells s ! r ! c = cells s ! r' ! c'"
  shows "r = r' \<and> c = c'"
proof -
  from assms(1,2,3) have "cell_ok s r c" by (rule wf_grid_cell_ok)
  moreover from assms(1,4,5) have "cell_ok s r' c'" by (rule wf_grid_cell_ok)
  ultimately show ?thesis
    using assms(6) by (simp add: cell_ok_def)
qed

lemma length_filter_neq:
  "distinct xs \<Longrightarrow> x \<in> set xs \<Longrightarrow> length (filter (\<lambda>y. y \<noteq> x) xs) = length xs - 1"
proof (induction xs)
  case Nil
  then show ?case by simp
next
  case (Cons y ys)
  show ?case
  proof (cases "y = x")
    case True
    with Cons.prems have "filter (\<lambda>y. y \<noteq> x) ys = ys"
      by (auto simp: filter_id_conv)
    with True show ?thesis by simp
  next
    case False
    with Cons.prems have "x \<in> set ys" "distinct ys" by simp_all
    with Cons.IH have "length (filter (\<lambda>y. y \<noteq> x) ys) = length ys - 1" by simp
    moreover from \<open>x \<in> set ys\<close> have "0 < length ys" by (cases ys) simp_all
    ultimately show ?thesis using False by simp
  qed
qed

lemma length_around:
  assumes "0 \<le> i" "i < nr" "0 \<le> j" "j < nc"
  shows "length (around nr nc i j) =
     nat (min (i + 2) nr - max (i - 1) 0) * nat (min (j + 2) nc - max (j - 1) 0) - 1"
proof -
  let ?xs = "List.product [max (i - 1) 0 .. min (i + 2) nr - 1] [max (j - 1) 0 .. min (j + 2) nc - 1]"
  have "around nr nc i j = filter (\<lambda>q. q \<noteq> (i, j)) ?xs"
    unfolding around_def by (rule filter_cong) auto
  moreover have "distinct ?xs" by (simp add: distinct_product)
  moreover from assms have "(i, j) \<in> set ?xs" by auto
  ultimately have "length (around nr nc i j) = length ?xs - 1"
    by (simp add: length_filter_neq)
  then show ?thesis by simp
qed

lemma length_around_cases:
  assumes "2 \<le> nr" "2 \<le> nc" "0 \<le> i" "i < nr" "0 \<le> j" "j < nc"
  shows "length (around nr nc i j) =
     (if (i = 0 \<or> i = nr - 1) \<and> (j = 0 \<or> j = nc - 1) then 3
      else if i = 0 \<or> i = nr - 1 \<or> j = 0 \<or> j = nc - 1 then 5 else 8)"
proof -
  have rows: "nat (min (i + 2) nr - max (i - 1) 0) = (if i = 0 \<or> i = nr - 1 then 2 else 3)"
    using assms by auto
  have cols: "nat (min (j + 2) nc - max (j - 1) 0) = (if j = 0 \<or> j = nc - 1 then 2 else 3)"
    using assms by auto
  from assms(3-6) have "length (around nr nc i j) =
     nat (min (i + 2) nr - max (i - 1) 0) * nat (min (j + 2) nc - max (j - 1) 0) - 1"
    by (rule length_around)
  then show ?thesis
    unfolding rows cols by simp
qed

lemma length_around_le:
  assumes "0 \<le> i" "i < nr" "0 \<le> j" "j < nc"
  shows "length (around nr nc i j) \<le> 8"
proof -
  define m where "m = nat (min (i + 2) nr - max (i - 1) 0) * nat (min (j + 2) nc - max (j - 1) 0)"
  have "nat (min (i + 2) nr - max (i - 1) 0) \<le> 3" "nat (min (j + 2) nc - max (j - 1) 0) \<le> 3"
    by auto
  then have "m \<le> 3 * 3"
    unfolding m_def by (rule mult_le_mono)
  moreover from length_around [OF assms] have "length (around nr nc i j) = m - 1"
    by (simp add: m_def)
  ultimately show ?thesis by simp
qed

subsection \<open>Indexing, toggling and the mouse handler\<close>

lemma np_index_mod:
  "np_index xs k =
     (if - int (length xs) \<le> k \<and> k < int (length xs)
      then Inr (xs ! nat (k mod int (length xs))) else Inl IndexError)"
proof -
  have "k mod int (length xs) = k + int (length xs)" if "- int (length xs) \<le> k" "k < 0"
  proof -
    from that have "(k + int (length xs)) mod int (length xs) = k + int (length xs)"
      by (intro mod_pos_pos_trivial) simp_all
    then show ?thesis by simp
  qed
  then show ?thesis
    by (auto simp: np_index_def Let_def)
qed

lemma cell_at_wf:
  assumes "wf_grid s"
  shows "cell_at s i j =
     (if - n_rows s \<le> i \<and> i < n_rows s \<and> - n_cols s \<le> j \<and> j < n_cols s
      then Inr (cells s ! nat (i mod n_rows s) ! nat (j mod n_cols s)) else Inl IndexError)"
proof (cases "- n_rows s \<le> i \<and> i < n_rows s")
  case False
  with assms have "np_index (cells s) i = Inl IndexError"
    by (auto simp: np_index_mod wf_grid_def)
  with False show ?thesis by (auto simp: cell_at_def)
next
  case True
  then have pos: "0 < n_rows s" by linarith
  with assms have len: "int (length (cells s)) = n_rows s"
    by (simp add: wf_grid_def)
  from pos have "0 \<le> i mod n_rows s" "i mod n_rows s < n_rows s" by simp_all
  then have "nat (i mod n_rows s) < nat (n_rows s)" by linarith
  with assms have "length (cells s ! nat (i mod n_rows s)) = nat (n_cols s)"
    by (rule wf_grid_row_length)
  then have "int (length (cells s ! nat (i mod n_rows s))) = n_cols s" if "- n_cols s \<le> j \<and> j < n_cols s"
    using that by linarith
  moreover have "\<not> (- int (length (cells s ! nat (i mod n_rows s))) \<le> j \<and> j < int (length (cells s ! nat (i mod n_rows s))))"
    if "\<not> (- n_cols s \<le> j \<and> j < n_cols s)"
    using that \<open>length (cells s ! nat (i mod n_rows s)) = nat (n_cols s)\<close> by linarith
  ultimately show ?thesis
    using True len by (auto simp: cell_at_def np_index_mod)
qed

lemma length_toggled_at: "length (toggled_at b r c) = length b"
  by (simp add: toggled_at_def)

lemma length_toggled_at_row: "r' < length b \<Longrightarrow> length (toggled_at b r c ! r') = length (b ! r')"
  by (cases "r' = r") (simp_all add: toggled_at_def)

lemma toggled_at_nth:
  "r' < length b \<Longrightarrow> c' < length (b ! r') \<Longrightarrow>
     toggled_at b r c ! r' ! c' = (if r' = r \<and> c' = c then \<not> b ! r ! c else b ! r' ! c')"
  by (cases "r' = r"; cases "c' = c") (simp_all add: toggled_at_def)

lemma alive_grid_toggle_cell:
  assumes "wf_grid s" "r < nat (n_rows s)" "c < nat (n_cols s)"
  shows "alive_grid (toggle_cell (cells s ! r ! c) s) = toggled_at (alive_grid s) r c"
proof (rule nth_equalityI)
  let ?a = "cells s ! r ! c"
  let ?s' = "toggle_cell ?a s"
  from assms(1) have len: "length (cells s) = nat (n_rows s)"
    by (simp add: wf_grid_def)
  have cs: "cells ?s' = cells s" by (simp add: toggle_cell_def)
  show "length (alive_grid ?s') = length (toggled_at (alive_grid s) r c)"
    by (simp add: length_alive_grid length_toggled_at cs)
  fix r' assume "r' < length (alive_grid ?s')"
  then have r': "r' < nat (n_rows s)"
    by (simp add: alive_grid_def cs len)
  with assms(1) have row: "length (cells s ! r') = nat (n_cols s)"
    by (rule wf_grid_row_length)
  show "alive_grid ?s' ! r' = toggled_at (alive_grid s) r c ! r'"
  proof (rule nth_equalityI)
    from r' len have rb: "r' < length (alive_grid s)"
      by (simp add: length_alive_grid)
    from r' len row have cb: "length (alive_grid s ! r') = nat (n_cols s)"
      by (simp add: alive_grid_def)
    from r' len show "length (alive_grid ?s' ! r') = length (toggled_at (alive_grid s) r c ! r')"
      by (simp add: length_toggled_at_row rb) (simp add: alive_grid_def cs)
    fix c' assume "c' < length (alive_grid ?s' ! r')"
    with r' len row have c': "c' < nat (n_cols s)"
      by (simp add: alive_grid_def cs)
    from assms(1) r' c' have "cell_ok s r' c'" by (rule wf_grid_cell_ok)
    then have a': "cells s ! r' ! c' < length (store s)" by (simp add: cell_ok_def)
    have eq: "cells s ! r' ! c' = ?a \<longleftrightarrow> r' = r \<and> c' = c"
      using wf_grid_cells_inj [OF assms(1) r' c' assms(2,3)] by auto
    from r' c' len row have "alive_grid ?s' ! r' ! c' = alive (store ?s' ! (cells s ! r' ! c'))"
      by (simp add: alive_grid_def cs)
    also from a' have "\<dots> = (if cells s ! r' ! c' = ?a then \<not> alive (store s ! ?a)
                              else alive (store s ! (cells s ! r' ! c')))"
      by (auto simp: toggle_cell_def Cell_toggle_def nth_list_update)
    also have "\<dots> = (if r' = r \<and> c' = c then \<not> alive_grid s ! r ! c else alive_grid s ! r' ! c')"
      unfolding eq using r' c' len row by (auto simp: alive_grid_nth)
    also from rb cb c' have "\<dots> = toggled_at (alive_grid s) r c ! r' ! c'"
      by (simp add: toggled_at_nth)
    finally show "alive_grid ?s' ! r' ! c' = toggled_at (alive_grid s) r c ! r' ! c'" .
  qed
qed

lemma Grid_toggle_wf:
  assumes "wf_grid s"
  shows "Grid_toggle s i j =
     (if - n_rows s \<le> i \<and> i < n_rows s \<and> - n_cols s \<le> j \<and> j < n_cols s
      then Inr (toggle_cell (cells s ! nat (i mod n_rows s) ! nat (j mod n_cols s)) s)
      else Inl IndexError)"
  by (simp add: Grid_toggle_def cell_at_wf [OF assms])

lemma mouse_toggle_wf:
  assumes "wf_grid (grid g)" "game_cell_size g \<noteq> 0"
  shows "mouse_toggle g (x, y) =
     (if - n_rows (grid g) \<le> x div game_cell_size g \<and> x div game_cell_size g < n_rows (grid g) \<and>
         - n_cols (grid g) \<le> y div game_cell_size g \<and> y div game_cell_size g < n_cols (grid g)
      then Inr (g\<lparr>grid := toggle_cell
                  (cells (grid g) ! nat (x div game_cell_size g mod n_rows (grid g))
                                  ! nat (y div game_cell_size g mod n_cols (grid g))) (grid g)\<rparr>)
      else Inl IndexError)"
  using assms(2) by (simp add: mouse_toggle_def floordiv_def Grid_toggle_wf [OF assms(1)])

subsection \<open>Pixels and rectangles\<close>

lemma in_cell_iff:
  fixes x :: int
  assumes "0 < cs"
  shows "i * cs \<le> x \<and> x < i * cs + cs \<longleftrightarrow> i = x div cs"
proof
  assume a: "i * cs \<le> x \<and> x < i * cs + cs"
  have "x = cs * i + (x - i * cs)" by (simp add: mult.commute)
  moreover from a have "0 \<le> x - i * cs" "x - i * cs < cs" by simp_all
  ultimately have "x div cs = i" by (rule int_div_pos_eq)
  then show "i = x div cs" by simp
next
  assume i: "i = x div cs"
  have "x = x div cs * cs + x mod cs" by simp
  moreover from assms have "0 \<le> x mod cs" "x mod cs < cs" by simp_all
  ultimately show "i * cs \<le> x \<and> x < i * cs + cs"
    unfolding i by linarith
qed

lemma div_bounds:
  fixes x :: int
  assumes "0 < cs" "0 \<le> x" "x < n * cs"
  shows "0 \<le> x div cs \<and> x div cs < n"
proof -
  from assms have "0 \<le> x div cs" by (simp add: pos_imp_zdiv_nonneg_iff)
  moreover have "x div cs * cs \<le> x"
    using in_cell_iff [OF assms(1), of "x div cs" x] by simp
  with assms(3) have "x div cs * cs < n * cs" by simp
  with assms(1) have "x div cs < n" by (simp add: mult_less_cancel_right)
  ultimately show ?thesis ..
qed

lemma collidepoint_cell:
  assumes "0 < cs"
  shows "collidepoint (Rect (i * cs) (j * cs) cs cs) (x, y) \<longleftrightarrow> i = x div cs \<and> j = y div cs"
proof -
  have "collidepoint (Rect (i * cs) (j * cs) cs cs) (x, y) \<longleftrightarrow>
      (i * cs \<le> x \<and> x < i * cs + cs) \<and> (j * cs \<le> y \<and> y < j * cs + cs)"
    by (simp add: collidepoint_def Rect_def)
  also have "\<dots> \<longleftrightarrow> i = x div cs \<and> j = y div cs"
    by (simp only: in_cell_iff [OF assms])
  finally show ?thesis .
qed

section \<open>The claims\<close>

text \<open>
  C1. On every well-formed grid \<open>update\<close> returns, and it advances the grid by exactly one
  synchronous generation: the list \<open>cells_to_toggle\<close> is the result of filtering all cells
  with \<open>rule\<close> against the state the method was entered with, the flips are applied only
  afterwards, and the alive flags of the result are the standard double-buffered step
  \<open>life_step\<close> of the alive flags before. The result is again well formed.
\<close>

theorem update_synchronous_step:
  assumes "wf_grid s"
  shows "\<exists>cells_to_toggle.
     py_filter (rule s) (flatten s) = Inr cells_to_toggle \<and>
     update s = Inr (fold toggle_cell cells_to_toggle s) \<and>
     alive_grid (fold toggle_cell cells_to_toggle s) = life_step (alive_grid s) \<and>
     wf_grid (fold toggle_cell cells_to_toggle s)"
  using update_refines_life_step [OF assms] fold_toggle_cell_wf [OF assms] by blast

theorem update_synchronous_step_witness:
  "wf_grid corner_grid \<and>
   (\<exists>cells_to_toggle.
     py_filter (rule corner_grid) (flatten corner_grid) = Inr cells_to_toggle \<and>
     update corner_grid = Inr (fold toggle_cell cells_to_toggle corner_grid) \<and>
     alive_grid (fold toggle_cell cells_to_toggle corner_grid) =
       life_step (alive_grid corner_grid) \<and>
     wf_grid (fold toggle_cell cells_to_toggle corner_grid))"
proof -
  have h: "wf_grid corner_grid" by code_simp
  from h update_synchronous_step [OF h] show ?thesis by (rule conjI)
qed

text \<open>
  C2. For every cell, whatever the grid, \<open>rule\<close> is true (the state has to flip) if and only
  if the cell is alive and its count of alive neighbours is not in [2, 3], or the cell is
  dead and the count is 3; it is false in every other case, and it raises only if the count
  does. For a cell of a well-formed grid the count that \<open>count_alive_neighbors\<close> returns is
  the number of alive cells adjacent to the cell's own position \<open>(i, j)\<close> on the board of
  alive flags, \<open>life_neighbours\<close>, a number between 0 and 8, and \<open>rule\<close> returns the flip
  decision for that number.
\<close>

theorem rule_life:
  "rule s c =
     and_then (count_alive_neighbors s c)
       (\<lambda>n. Inr ((alive (store s ! c) \<and> \<not> (2 \<le> n \<and> n \<le> 3)) \<or>
                  (\<not> alive (store s ! c) \<and> n = 3))) \<and>
   (wf_grid s \<and> c \<in> set (flatten s) \<longrightarrow>
      count_alive_neighbors s c =
        Inr (life_neighbours (alive_grid s) (cell_i (store s ! c)) (cell_j (store s ! c))) \<and>
      0 \<le> life_neighbours (alive_grid s) (cell_i (store s ! c)) (cell_j (store s ! c)) \<and>
      life_neighbours (alive_grid s) (cell_i (store s ! c)) (cell_j (store s ! c)) \<le> 8 \<and>
      rule s c =
        Inr ((alive (store s ! c) \<and>
                \<not> (2 \<le> life_neighbours (alive_grid s) (cell_i (store s ! c)) (cell_j (store s ! c)) \<and>
                   life_neighbours (alive_grid s) (cell_i (store s ! c)) (cell_j (store s ! c)) \<le> 3)) \<or>
             (\<not> alive (store s ! c) \<and>
                life_neighbours (alive_grid s) (cell_i (store s ! c)) (cell_j (store s ! c)) = 3)))"
proof (intro conjI impI)
  show eq: "rule s c =
     and_then (count_alive_neighbors s c)
       (\<lambda>n. Inr ((alive (store s ! c) \<and> \<not> (2 \<le> n \<and> n \<le> 3)) \<or>
                  (\<not> alive (store s ! c) \<and> n = 3)))"
    by (rule rule_eq)
  assume a: "wf_grid s \<and> c \<in> set (flatten s)"
  then obtain r k where rk: "r < nat (n_rows s)" "k < nat (n_cols s)" "c = cells s ! r ! k"
    by (blast elim: wf_grid_flattenE)
  let ?n = "life_neighbours (alive_grid s) (cell_i (store s ! c)) (cell_j (store s ! c))"
  let ?A = "around (n_rows s) (n_cols s) (int r) (int k)"
  let ?P = "\<lambda>q. alive (store s ! (cells s ! nat (fst q) ! nat (snd q)))"
  from a rk have "cell_ok s r k"
    by (intro wf_grid_cell_ok) simp_all
  then have ij: "cell_i (store s ! c) = int r" "cell_j (store s ! c) = int k"
    by (simp_all add: cell_ok_def rk(3))
  from a rk have "count_alive_neighbors s (cells s ! r ! k) =
      Inr (life_neighbours (alive_grid s) (int r) (int k))"
    by (intro count_alive_neighbors_life) simp_all
  then show cnt: "count_alive_neighbors s c = Inr ?n"
    by (simp only: ij rk(3) [symmetric])
  from a rk have "count_alive_neighbors s c = Inr (int (length (filter ?P ?A)))"
    by (simp add: count_alive_neighbors_wf)
  with cnt have n: "?n = int (length (filter ?P ?A))"
    by simp
  then show "0 \<le> ?n" by simp
  have "length (filter ?P ?A) \<le> length ?A"
    by (rule length_filter_le)
  also from rk have "length ?A \<le> 8"
    by (intro length_around_le) simp_all
  finally show "?n \<le> 8"
    unfolding n by simp
  from cnt show "rule s c =
        Inr ((alive (store s ! c) \<and> \<not> (2 \<le> ?n \<and> ?n \<le> 3)) \<or> (\<not> alive (store s ! c) \<and> ?n = 3))"
    by (simp add: rule_eq)
qed

theorem rule_life_witness:
  "wf_grid corner_grid \<and> 5 \<in> set (flatten corner_grid) \<and>
   cell_i (store corner_grid ! 5) = 1 \<and> cell_j (store corner_grid ! 5) = 1 \<and>
   \<not> alive (store corner_grid ! 5) \<and>
   life_neighbours (alive_grid corner_grid) 1 1 = 3 \<and>
   count_alive_neighbors corner_grid 5 = Inr 3 \<and>
   rule corner_grid 5 = Inr True"
proof -
  have h: "wf_grid corner_grid \<and> 5 \<in> set (flatten corner_grid)" by code_simp
  have c: "cell_i (store corner_grid ! 5) = 1" "cell_j (store corner_grid ! 5) = 1"
    "\<not> alive (store corner_grid ! 5)" "life_neighbours (alive_grid corner_grid) 1 1 = 3"
    by code_simp+
  from rule_life [of corner_grid 5] h c show ?thesis by simp
qed

text \<open>
  C3. In a well-formed grid with at least two rows and two columns, \<open>neighbors\<close> of the cell
  at an in-bounds index pair \<open>(i, j)\<close> returns, without repetition, exactly the cells whose
  index differs from \<open>(i, j)\<close> by at most one in each dimension and lies inside the grid
  (no wraparound), never the cell itself: 3 cells in a corner, 5 on an edge that is not a
  corner, 8 in the interior.
\<close>

theorem neighbors_clipped:
  assumes "wf_grid s" "2 \<le> n_rows s" "2 \<le> n_cols s"
    and "0 \<le> i" "i < n_rows s" "0 \<le> j" "j < n_cols s"
  shows "\<exists>ns. neighbors s (cells s ! nat i ! nat j) = Inr ns \<and>
     distinct ns \<and>
     set ns = {cells s ! nat i' ! nat j' | i' j'.
                 0 \<le> i' \<and> i' < n_rows s \<and> 0 \<le> j' \<and> j' < n_cols s \<and>
                 \<bar>i' - i\<bar> \<le> 1 \<and> \<bar>j' - j\<bar> \<le> 1 \<and> (i', j') \<noteq> (i, j)} \<and>
     cells s ! nat i ! nat j \<notin> set ns \<and>
     length ns =
       (if (i = 0 \<or> i = n_rows s - 1) \<and> (j = 0 \<or> j = n_cols s - 1) then 3
        else if i = 0 \<or> i = n_rows s - 1 \<or> j = 0 \<or> j = n_cols s - 1 then 5 else 8)"
proof -
  let ?g = "\<lambda>(i, j). cells s ! nat i ! nat j"
  let ?A = "around (n_rows s) (n_cols s) i j"
  let ?ns = "map ?g ?A"
  from assms have rc: "nat i < nat (n_rows s)" "nat j < nat (n_cols s)" by simp_all
  from neighbors_wf [OF assms(1) rc] assms(4,6) have nb: "neighbors s (cells s ! nat i ! nat j) = Inr ?ns"
    by simp
  have inA: "0 \<le> fst q \<and> fst q < n_rows s \<and> 0 \<le> snd q \<and> snd q < n_cols s" if "q \<in> set ?A" for q
    using that by (auto simp: set_around)
  have inj: "p = q" if "?g p = ?g q"
    and "0 \<le> fst p" "fst p < n_rows s" "0 \<le> snd p" "snd p < n_cols s"
    and "0 \<le> fst q" "fst q < n_rows s" "0 \<le> snd q" "snd q < n_cols s" for p q
  proof -
    from that have "nat (fst p) = nat (fst q) \<and> nat (snd p) = nat (snd q)"
      by (intro wf_grid_cells_inj [OF assms(1)]) (simp_all add: case_prod_beta)
    with that have "fst p = fst q" "snd p = snd q" by linarith+
    then show ?thesis by (simp add: prod_eq_iff)
  qed
  have "inj_on ?g (set ?A)"
    by (rule inj_onI) (use inA inj in blast)
  then have d: "distinct ?ns"
    by (simp add: distinct_map distinct_around)
  have st: "set ?ns = {cells s ! nat i' ! nat j' | i' j'.
                 0 \<le> i' \<and> i' < n_rows s \<and> 0 \<le> j' \<and> j' < n_cols s \<and>
                 \<bar>i' - i\<bar> \<le> 1 \<and> \<bar>j' - j\<bar> \<le> 1 \<and> (i', j') \<noteq> (i, j)}"
  proof (rule set_eqI)
    fix a
    have mem: "q \<in> set ?A \<longleftrightarrow>
        0 \<le> fst q \<and> fst q < n_rows s \<and> 0 \<le> snd q \<and> snd q < n_cols s \<and>
        \<bar>fst q - i\<bar> \<le> 1 \<and> \<bar>snd q - j\<bar> \<le> 1 \<and> (fst q, snd q) \<noteq> (i, j)" for q
      unfolding set_around_adjacent [OF assms(4-7)]
      by (auto simp: adjacent_def abs_minus_commute prod_eq_iff)
    show "a \<in> set ?ns \<longleftrightarrow> a \<in> {cells s ! nat i' ! nat j' | i' j'.
                 0 \<le> i' \<and> i' < n_rows s \<and> 0 \<le> j' \<and> j' < n_cols s \<and>
                 \<bar>i' - i\<bar> \<le> 1 \<and> \<bar>j' - j\<bar> \<le> 1 \<and> (i', j') \<noteq> (i, j)}"
    proof
      assume "a \<in> set ?ns"
      then obtain q where q: "q \<in> set ?A" "a = cells s ! nat (fst q) ! nat (snd q)"
        by (auto simp: case_prod_beta)
      from q(1) have "0 \<le> fst q \<and> fst q < n_rows s \<and> 0 \<le> snd q \<and> snd q < n_cols s \<and>
        \<bar>fst q - i\<bar> \<le> 1 \<and> \<bar>snd q - j\<bar> \<le> 1 \<and> (fst q, snd q) \<noteq> (i, j)"
        using mem [of q] by blast
      with q(2) show "a \<in> {cells s ! nat i' ! nat j' | i' j'.
                 0 \<le> i' \<and> i' < n_rows s \<and> 0 \<le> j' \<and> j' < n_cols s \<and>
                 \<bar>i' - i\<bar> \<le> 1 \<and> \<bar>j' - j\<bar> \<le> 1 \<and> (i', j') \<noteq> (i, j)}"
        by blast
    next
      assume "a \<in> {cells s ! nat i' ! nat j' | i' j'.
                 0 \<le> i' \<and> i' < n_rows s \<and> 0 \<le> j' \<and> j' < n_cols s \<and>
                 \<bar>i' - i\<bar> \<le> 1 \<and> \<bar>j' - j\<bar> \<le> 1 \<and> (i', j') \<noteq> (i, j)}"
      then obtain i' j' where ij: "a = cells s ! nat i' ! nat j'"
          "0 \<le> i'" "i' < n_rows s" "0 \<le> j'" "j' < n_cols s"
          "\<bar>i' - i\<bar> \<le> 1" "\<bar>j' - j\<bar> \<le> 1" "(i', j') \<noteq> (i, j)"
        by blast
      then have "(i', j') \<in> set ?A"
        using mem [of "(i', j')"] by simp
      then have "?g (i', j') \<in> set ?ns"
        by (simp only: set_map) (rule imageI)
      with ij(1) show "a \<in> set ?ns" by simp
    qed
  qed
  have self: "cells s ! nat i ! nat j \<notin> set ?ns"
  proof
    assume "cells s ! nat i ! nat j \<in> set ?ns"
    then obtain q where q: "q \<in> set ?A" "?g q = ?g (i, j)" by auto
    with inA [OF q(1)] assms(4-7) have "q = (i, j)"
      by (intro inj) simp_all
    with q(1) show False by (simp add: set_around)
  qed
  have len: "length ?ns =
       (if (i = 0 \<or> i = n_rows s - 1) \<and> (j = 0 \<or> j = n_cols s - 1) then 3
        else if i = 0 \<or> i = n_rows s - 1 \<or> j = 0 \<or> j = n_cols s - 1 then 5 else 8)"
    using length_around_cases [OF assms(2-7)] by simp
  from nb d st self len show ?thesis by blast
qed

theorem neighbors_clipped_witness:
  "wf_grid corner_grid \<and> 2 \<le> n_rows corner_grid \<and> 2 \<le> n_cols corner_grid \<and>
   (0::int) \<le> 1 \<and> 1 < n_rows corner_grid \<and> (0::int) \<le> 2 \<and> 2 < n_cols corner_grid \<and>
   (\<exists>ns. neighbors corner_grid (cells corner_grid ! nat 1 ! nat 2) = Inr ns \<and> distinct ns \<and>
      cells corner_grid ! nat 1 ! nat 2 \<notin> set ns \<and> length ns = 8)"
proof -
  have h: "wf_grid corner_grid" "2 \<le> n_rows corner_grid" "2 \<le> n_cols corner_grid"
    "(0::int) \<le> 1" "1 < n_rows corner_grid" "(0::int) \<le> 2" "2 < n_cols corner_grid"
    by code_simp+
  have d: "n_rows corner_grid = 3" "n_cols corner_grid = 4"
    by code_simp+
  from neighbors_clipped [OF h] obtain ns where
    "neighbors corner_grid (cells corner_grid ! nat 1 ! nat 2) = Inr ns" "distinct ns"
    "cells corner_grid ! nat 1 ! nat 2 \<notin> set ns" "length ns = 8"
    unfolding d by auto
  with h show ?thesis by blast
qed

text \<open>
  C4, as amended. \<open>Grid.toggle\<close> checks the indices the way the numpy array does: for
  \<open>- n_rows \<le> i < n_rows\<close> and \<open>- n_cols \<le> j < n_cols\<close> it flips exactly the cell at
  \<open>(i mod n_rows, j mod n_cols)\<close>, a negative index counting from the end, and changes
  nothing else, the grid staying well formed; for all other indices it raises
  \<open>IndexError\<close>, the grid being as before.
\<close>

theorem Grid_toggle_numpy_indexing:
  assumes "wf_grid s"
  shows "(- n_rows s \<le> i \<and> i < n_rows s \<and> - n_cols s \<le> j \<and> j < n_cols s \<longrightarrow>
           (\<exists>s'. Grid_toggle s i j = Inr s' \<and>
              alive_grid s' = toggled_at (alive_grid s) (nat (i mod n_rows s)) (nat (j mod n_cols s)) \<and>
              fixed_part s' = fixed_part s \<and> wf_grid s')) \<and>
         (\<not> (- n_rows s \<le> i \<and> i < n_rows s \<and> - n_cols s \<le> j \<and> j < n_cols s) \<longrightarrow>
           Grid_toggle s i j = Inl IndexError)"
proof (intro conjI impI)
  assume "\<not> (- n_rows s \<le> i \<and> i < n_rows s \<and> - n_cols s \<le> j \<and> j < n_cols s)"
  then show "Grid_toggle s i j = Inl IndexError"
    by (simp add: Grid_toggle_def cell_at_wf [OF assms])
next
  assume b: "- n_rows s \<le> i \<and> i < n_rows s \<and> - n_cols s \<le> j \<and> j < n_cols s"
  let ?r = "nat (i mod n_rows s)" and ?c = "nat (j mod n_cols s)"
  from b have pos: "0 < n_rows s" "0 < n_cols s" by linarith+
  then have "0 \<le> i mod n_rows s" "i mod n_rows s < n_rows s"
      "0 \<le> j mod n_cols s" "j mod n_cols s < n_cols s" by simp_all
  then have rc: "?r < nat (n_rows s)" "?c < nat (n_cols s)" by linarith+
  from b have "Grid_toggle s i j = Inr (toggle_cell (cells s ! ?r ! ?c) s)"
    by (simp add: Grid_toggle_def cell_at_wf [OF assms])
  moreover from assms rc
  have "alive_grid (toggle_cell (cells s ! ?r ! ?c) s) = toggled_at (alive_grid s) ?r ?c"
    by (rule alive_grid_toggle_cell)
  moreover from fold_toggle_cell_wf [OF assms, of "[cells s ! ?r ! ?c]"]
  have "wf_grid (toggle_cell (cells s ! ?r ! ?c) s)"
    by simp
  ultimately show "\<exists>s'. Grid_toggle s i j = Inr s' \<and>
      alive_grid s' = toggled_at (alive_grid s) ?r ?c \<and> fixed_part s' = fixed_part s \<and> wf_grid s'"
    by (simp add: fixed_part_toggle_cell)
qed

theorem Grid_toggle_numpy_indexing_witness:
  "wf_grid corner_grid \<and>
   (\<exists>s'. Grid_toggle corner_grid (- 1) 0 = Inr s' \<and>
      alive_grid s' = toggled_at (alive_grid corner_grid) 2 0 \<and>
      fixed_part s' = fixed_part corner_grid \<and> wf_grid s') \<and>
   Grid_toggle corner_grid 3 0 = Inl IndexError"
proof -
  have h: "wf_grid corner_grid" by code_simp
  have d: "n_rows corner_grid = 3" "n_cols corner_grid = 4" by code_simp+
  from Grid_toggle_numpy_indexing [OF h, of "- 1" 0] Grid_toggle_numpy_indexing [OF h, of 3 0] h
  show ?thesis by (simp add: d)
qed

text \<open>
  The claim as it was stated fails: on a fresh 3 by 3 grid \<open>toggle(-1, 0)\<close> does not raise
  but makes the cell (2, 0) alive.
\<close>

theorem Grid_toggle_bounds_counterexample:
  "Grid_toggle (Grid_init 3 3 10) (- 1) 0 \<noteq> Inl IndexError \<and>
   map_sum id alive_grid (Grid_toggle (Grid_init 3 3 10) (- 1) 0) =
     Inr [[False, False, False], [False, False, False], [True, False, False]] \<and>
   alive_grid (Grid_init 3 3 10) =
     [[False, False, False], [False, False, False], [False, False, False]]"
  by code_simp

text \<open>
  C5, as amended. For an integer \<open>cell_size\<close> other than zero: with a mouse button held,
  the handler divides each pixel coordinate by \<open>cell_size\<close>, rounding down, and passes the
  two quotients to \<open>Grid.toggle\<close>. Quotients
  inside \<open>[- n_rows, n_rows)\<close> and \<open>[- n_cols, n_cols)\<close> toggle the cell they address;
  for any other position the \<open>IndexError\<close> of the array access leaves \<open>handle_events\<close>,
  the game state being as before the click.
\<close>

theorem handle_events_click:
  assumes "wf_grid (grid g)" "game_cell_size g \<noteq> 0"
  shows "handle_events [(OTHER, True, x, y)] g =
     (if - n_rows (grid g) \<le> x div game_cell_size g \<and> x div game_cell_size g < n_rows (grid g) \<and>
         - n_cols (grid g) \<le> y div game_cell_size g \<and> y div game_cell_size g < n_cols (grid g)
      then (None, g\<lparr>grid := toggle_cell
                  (cells (grid g) ! nat (x div game_cell_size g mod n_rows (grid g))
                                  ! nat (y div game_cell_size g mod n_cols (grid g))) (grid g)\<rparr>)
      else (Some IndexError, g))"
  by (simp add: mouse_toggle_wf [OF assms])

theorem handle_events_click_witness:
  "wf_grid (grid (Game_init 2 2 10)) \<and> game_cell_size (Game_init 2 2 10) \<noteq> 0 \<and>
   handle_events [(OTHER, True, 15, 5)] (Game_init 2 2 10) =
     (None, (Game_init 2 2 10)\<lparr>grid := toggle_cell 2 (grid (Game_init 2 2 10))\<rparr>) \<and>
   handle_events [(OTHER, True, 35, 5)] (Game_init 2 2 10) = (Some IndexError, Game_init 2 2 10)"
proof -
  have h: "wf_grid (grid (Game_init 2 2 10))" "game_cell_size (Game_init 2 2 10) \<noteq> 0"
    by code_simp+
  have d: "n_rows (grid (Game_init 2 2 10)) = 2" "n_cols (grid (Game_init 2 2 10)) = 2"
    "game_cell_size (Game_init 2 2 10) = 10"
    "cells (grid (Game_init 2 2 10)) ! Suc 0 ! 0 = 2"
    by code_simp+
  from handle_events_click [OF h, of 15 5] handle_events_click [OF h, of 35 5] h
  show ?thesis by (simp add: d)
qed

text \<open>
  The claim as it was stated fails: in a game of 2 by 2 cells of 10 pixels, the position
  (25, 5), right of the grid, is not rejected; the handler raises \<open>IndexError\<close>.
\<close>

theorem handle_events_click_counterexample:
  "mouse_toggle (Game_init 2 2 10) (25, 5) = Inl IndexError \<and>
   handle_events [(OTHER, True, 25, 5)] (Game_init 2 2 10) = (Some IndexError, Game_init 2 2 10)"
  by code_simp

text \<open>
  C6. On the 5 by 5 grid that is dead but for (2,1), (2,2), (2,3), one \<open>update\<close> leaves
  exactly (1,2), (2,2), (3,2) alive, and a second \<open>update\<close> exactly (2,1), (2,2), (2,3)
  again.
\<close>

theorem blinker_period_two:
  "map_sum id alive_cells blinker = Inr [(2, 1), (2, 2), (2, 3)] \<and>
   map_sum id alive_cells (and_then blinker update) = Inr [(1, 2), (2, 2), (3, 2)] \<and>
   map_sum id alive_cells (and_then (and_then blinker update) update) = Inr [(2, 1), (2, 2), (2, 3)]"
  by code_simp

text \<open>
  C7. \<open>update\<close> on a well-formed grid of any dimensions in which every cell is dead
  returns the grid as it was: no cell becomes alive.
\<close>

theorem update_all_dead:
  assumes "wf_grid s" "all_dead s"
  shows "update s = Inr s"
proof -
  from assms have "filter (flips s) (flatten s) = []"
    by (simp add: filter_empty_conv all_dead_flips)
  with update_refines_life_step(2) [OF assms(1)] show ?thesis
    by simp
qed

theorem update_all_dead_witness:
  "wf_grid (Grid_init 3 4 10) \<and> all_dead (Grid_init 3 4 10) \<and>
   update (Grid_init 3 4 10) = Inr (Grid_init 3 4 10)"
proof -
  have h1: "wf_grid (Grid_init 3 4 10)" by code_simp
  have h2: "all_dead (Grid_init 3 4 10)" by code_simp
  from h1 h2 update_all_dead [OF h1 h2] show ?thesis by simp
qed

text \<open>
  C8. \<open>update\<close> is deterministic in the alive flags: two well-formed grids with the same
  matrix of alive flags (hence the same dimensions) have the same matrix after \<open>update\<close>,
  whatever their cell size and store. The order in which the cells are visited does not
  matter either: visiting them in any order \<open>xs\<close> gives the state that \<open>update\<close> gives.
\<close>

theorem update_deterministic:
  assumes "wf_grid s1" "wf_grid s2" "alive_grid s1 = alive_grid s2"
    and "distinct xs" "set xs = set (flatten s1)"
  shows "\<exists>t1 t2. update s1 = Inr t1 \<and> update s2 = Inr t2 \<and> alive_grid t1 = alive_grid t2 \<and>
     update_in_order xs s1 = Inr t1"
proof -
  let ?t1 = "fold toggle_cell (filter (flips s1) (flatten s1)) s1"
  let ?t2 = "fold toggle_cell (filter (flips s2) (flatten s2)) s2"
  from assms(1) have u1: "update s1 = Inr ?t1" and a1: "alive_grid ?t1 = life_step (alive_grid s1)"
    by (rule update_refines_life_step)+
  from assms(2) have u2: "update s2 = Inr ?t2" and a2: "alive_grid ?t2 = life_step (alive_grid s2)"
    by (rule update_refines_life_step)+
  from assms(1) have d: "distinct (flatten s1)" by (simp add: wf_grid_def)
  from assms(1,5) have "update_in_order xs s1 = Inr (fold toggle_cell (filter (flips s1) xs) s1)"
    by (intro update_in_order_result) simp_all
  also from assms(4,5) d have "fold toggle_cell (filter (flips s1) xs) s1 = ?t1"
    by (intro fold_toggle_cell_order) simp_all
  finally have o: "update_in_order xs s1 = Inr ?t1" .
  from a1 a2 assms(3) have "alive_grid ?t1 = alive_grid ?t2" by simp
  with u1 u2 o show ?thesis by blast
qed

theorem update_deterministic_witness:
  "wf_grid corner_grid \<and> wf_grid (fold toggle_cell [0, 1, 4] (Grid_init 3 4 25)) \<and>
   alive_grid corner_grid = alive_grid (fold toggle_cell [0, 1, 4] (Grid_init 3 4 25)) \<and>
   distinct (rev (flatten corner_grid)) \<and>
   set (rev (flatten corner_grid)) = set (flatten corner_grid) \<and>
   (\<exists>t1 t2. update corner_grid = Inr t1 \<and>
      update (fold toggle_cell [0, 1, 4] (Grid_init 3 4 25)) = Inr t2 \<and>
      alive_grid t1 = alive_grid t2 \<and>
      update_in_order (rev (flatten corner_grid)) corner_grid = Inr t1)"
proof -
  have h1: "wf_grid corner_grid" by code_simp
  have h2: "wf_grid (fold toggle_cell [0, 1, 4] (Grid_init 3 4 25))" by code_simp
  have h3: "alive_grid corner_grid = alive_grid (fold toggle_cell [0, 1, 4] (Grid_init 3 4 25))"
    by code_simp
  have h4: "distinct (rev (flatten corner_grid))" by code_simp
  have h5: "set (rev (flatten corner_grid)) = set (flatten corner_grid)" by simp
  from update_deterministic [OF h1 h2 h3 h4 h5] h1 h2 h3 h4 h5 show ?thesis by blast
qed

text \<open>
  C9. \<open>update\<close> and \<open>Grid.toggle\<close> change nothing but alive flags: when they return,
  \<open>n_rows\<close>, \<open>n_cols\<close>, \<open>cell_size\<close> and the array of references are as before, the store
  holds as many objects as before, and every object has the indices and the rectangle it
  had. \<open>neighbors\<close>, \<open>count_alive_neighbors\<close> and \<open>rule\<close> contain no assignment; they are
  functions of the state that return a value and no state.
\<close>

theorem only_alive_changes:
  "(\<forall>s'. update s = Inr s' \<longrightarrow> fixed_part s' = fixed_part s) \<and>
   (\<forall>i j s'. Grid_toggle s i j = Inr s' \<longrightarrow> fixed_part s' = fixed_part s)"
  by (auto dest!: update_Inr_fold Grid_toggle_Inr
        simp: fixed_part_fold_toggle_cell fixed_part_toggle_cell)

theorem only_alive_changes_witness:
  "update corner_grid = Inr (toggle_cell 5 corner_grid) \<and>
   fixed_part (toggle_cell 5 corner_grid) = fixed_part corner_grid \<and>
   Grid_toggle corner_grid 2 3 = Inr (toggle_cell 11 corner_grid) \<and>
   fixed_part (toggle_cell 11 corner_grid) = fixed_part corner_grid"
proof -
  have h1: "update corner_grid = Inr (toggle_cell 5 corner_grid)" by code_simp
  have h2: "Grid_toggle corner_grid 2 3 = Inr (toggle_cell 11 corner_grid)" by code_simp
  from only_alive_changes [of corner_grid] h1 h2 show ?thesis by blast
qed

text \<open>
  The rectangle of the cell at \<open>(i, j)\<close> has its top-left pixel at
  \<open>(i * cell_size, j * cell_size)\<close>, and the handler passes \<open>x // cell_size\<close> as \<open>i\<close> and
  \<open>y // cell_size\<close> as \<open>j\<close>. So for a pixel inside the area that the rectangles cover,
  \<open>0 \<le> x < n_rows * cell_size\<close> and \<open>0 \<le> y < n_cols * cell_size\<close>, a click toggles the
  one cell whose rectangle contains the pixel.
\<close>

lemma click_in_drawn_area:
  assumes "wf_grid (grid g)" "game_cell_size g = cell_size (grid g)" "0 < cell_size (grid g)"
    and "0 \<le> x" "x < n_rows (grid g) * cell_size (grid g)"
    and "0 \<le> y" "y < n_cols (grid g) * cell_size (grid g)"
  shows "\<exists>a. cell_at (grid g) (x div cell_size (grid g)) (y div cell_size (grid g)) = Inr a \<and>
     a \<in> set (flatten (grid g)) \<and>
     mouse_toggle g (x, y) = Inr (g\<lparr>grid := toggle_cell a (grid g)\<rparr>) \<and>
     rect (store (grid g) ! a) =
       Rect (x div cell_size (grid g) * cell_size (grid g))
            (y div cell_size (grid g) * cell_size (grid g)) (cell_size (grid g)) (cell_size (grid g)) \<and>
     collidepoint (rect (store (grid g) ! a)) (x, y) \<and>
     (\<forall>b \<in> set (flatten (grid g)). collidepoint (rect (store (grid g) ! b)) (x, y) \<longrightarrow> b = a)"
proof -
  let ?s = "grid g" and ?cs = "cell_size (grid g)"
  let ?i = "x div ?cs" and ?j = "y div ?cs"
  let ?a = "cells ?s ! nat ?i ! nat ?j"
  from assms(3-5) have i: "0 \<le> ?i \<and> ?i < n_rows ?s" by (rule div_bounds)
  from assms(3,6,7) have j: "0 \<le> ?j \<and> ?j < n_cols ?s" by (rule div_bounds)
  from i j have rc: "nat ?i < nat (n_rows ?s)" "nat ?j < nat (n_cols ?s)" by simp_all
  from assms(1) i j have at: "cell_at ?s ?i ?j = Inr ?a"
    by (intro cell_at_in_range) simp_all
  from assms(1) rc have mem: "?a \<in> set (flatten ?s)"
    by (rule wf_grid_in_flatten)
  from assms(2,3) at have mt: "mouse_toggle g (x, y) = Inr (g\<lparr>grid := toggle_cell ?a ?s\<rparr>)"
    by (simp add: mouse_toggle_def floordiv_def Grid_toggle_def)
  from assms(1) rc have "cell_ok ?s (nat ?i) (nat ?j)"
    by (rule wf_grid_cell_ok)
  with i j have re: "rect (store ?s ! ?a) = Rect (?i * ?cs) (?j * ?cs) ?cs ?cs"
    by (simp add: cell_ok_def)
  then have hit: "collidepoint (rect (store ?s ! ?a)) (x, y)"
    by (simp add: collidepoint_cell [OF assms(3)])
  have uniq: "b = ?a" if b: "b \<in> set (flatten ?s)" "collidepoint (rect (store ?s ! b)) (x, y)" for b
  proof -
    from assms(1) b(1) obtain r c
      where r: "r < nat (n_rows ?s)" "c < nat (n_cols ?s)" "b = cells ?s ! r ! c"
      by (rule wf_grid_flattenE)
    from assms(1) r(1,2) have "cell_ok ?s r c" by (rule wf_grid_cell_ok)
    then have "rect (store ?s ! b) = Rect (int r * ?cs) (int c * ?cs) ?cs ?cs"
      by (simp add: cell_ok_def r(3))
    with b(2) have "int r = ?i \<and> int c = ?j"
      by (simp add: collidepoint_cell [OF assms(3)])
    then have "r = nat ?i" "c = nat ?j" by linarith+
    with r(3) show ?thesis by simp
  qed
  from at mem mt re hit uniq show ?thesis by blast
qed

text \<open>
  C10. The window is \<open>n_cols * cell_size\<close> wide and \<open>n_rows * cell_size\<close> high, the
  rectangles cover \<open>n_rows * cell_size\<close> by \<open>n_cols * cell_size\<close>. In a game of 3 rows and
  2 columns the pixel (5, 25) is inside the window, no rectangle contains it, and a click
  on it raises \<open>IndexError\<close> instead of toggling a cell.
\<close>

theorem click_in_window_fails:
  "(0::int) \<le> 5 \<and> 5 < width (Game_init 3 2 10) \<and> (0::int) \<le> 25 \<and> 25 < height (Game_init 3 2 10) \<and>
   mouse_toggle (Game_init 3 2 10) (5, 25) = Inl IndexError \<and>
   handle_events [(OTHER, True, 5, 25)] (Game_init 3 2 10) = (Some IndexError, Game_init 3 2 10) \<and>
   list_all (\<lambda>b. \<not> collidepoint (rect (store (grid (Game_init 3 2 10)) ! b)) (5, 25))
     (flatten (grid (Game_init 3 2 10)))"
  by code_simp

end
